theory Spec2Isabelle
  imports Complex_Main "HOL-Library.Multiset" "HOL-Library.Product_Lexorder"
begin

section \<open>Synteny detection: the algorithms of algorithms/synteny.py\<close>

text \<open>
  The Python exceptions the modelled functions can raise. A function that can raise
  returns \<open>error + 'a\<close>, with \<open>Inl\<close> for the exception.
\<close>

datatype error = ValueError | KeyError | IndexError | AssertionError | ZeroDivisionError

text \<open>
  A point is a Python tuple \<open>(x, y)\<close> of unbounded integers. Tuples compare
  lexicographically, which is the order of pairs of \<open>Product_Lexorder\<close>.
\<close>

type_synonym point = "int \<times> int"

subsection \<open>The score of a cluster\<close>

text \<open>
  \<^verbatim>\<open>x, y = zip(*cluster); return min(len(set(x)), len(set(y)))\<close>.
  On an empty cluster \<^verbatim>\<open>zip(*cluster)\<close> is the empty list and the unpacking raises
  ValueError. The number of elements of \<^verbatim>\<open>set(x)\<close> is the number of distinct
  members of \<open>x\<close>.
\<close>

definition score :: "point list \<Rightarrow> error + nat" where
  "score cluster =
     (if cluster = [] then Inl ValueError
      else Inr (min (length (remdups (map fst cluster))) (length (remdups (map snd cluster)))))"

subsection \<open>The disjoint-set structure\<close>

text \<open>
  Modelled from the spec: the class \<open>Grouper\<close> of jcvi.utils.grouper, whose source is
  not among the files verified here. The spec asks for "an explicit disjoint-set structure ... exposing group-membership
  enumeration after all unions are applied": the state is the list of the groups, each
  the list of its members; \<open>join a b\<close> puts \<open>a\<close> and \<open>b\<close> into one group (creating the
  group of an element that has none, the smaller group appended to the larger one),
  and enumeration yields the groups. An element that was never joined is in no group.
\<close>

type_synonym grouper = "point list list"

definition group_of :: "grouper \<Rightarrow> point \<Rightarrow> point list option" where
  "group_of mapping a = List.find (\<lambda>g. a \<in> set g) mapping"

definition join :: "grouper \<Rightarrow> point \<Rightarrow> point \<Rightarrow> grouper" where
  "join mapping a b =
     (let set_a = (case group_of mapping a of None \<Rightarrow> [a] | Some g \<Rightarrow> g);
          others = filter (\<lambda>g. a \<notin> set g) mapping
      in if b \<in> set set_a then set_a # others
         else (case group_of others b of
                 None \<Rightarrow> (set_a @ [b]) # others
               | Some set_b \<Rightarrow>
                   (if length set_b > length set_a then set_b @ set_a else set_a @ set_b)
                     # filter (\<lambda>g. b \<notin> set g) others))"

subsection \<open>synteny_scan\<close>

text \<open>
  The inner loop \<^verbatim>\<open>for j in xrange(i - 1, -1, -1)\<close>: the counter \<open>Suc j\<close> stands for
  the iteration at index \<open>j\<close>, and \<open>0\<close> for the end of the range. \<^verbatim>\<open>break\<close> returns the
  grouper as it is, \<^verbatim>\<open>continue\<close> goes on with the next \<open>j\<close>.
\<close>

fun scan_back :: "point list \<Rightarrow> int \<Rightarrow> int \<Rightarrow> nat \<Rightarrow> nat \<Rightarrow> grouper \<Rightarrow> grouper" where
  "scan_back points xdist ydist i 0 clusters = clusters"
| "scan_back points xdist ydist i (Suc j) clusters =
     (let del_x = fst (points ! i) - fst (points ! j) in
      if del_x > xdist then clusters
      else
        let del_y = snd (points ! i) - snd (points ! j) in
        if \<bar>del_y\<bar> > ydist then scan_back points xdist ydist i j clusters
        else scan_back points xdist ydist i j (join clusters (points ! i) (points ! j)))"

text \<open>The outer loop \<^verbatim>\<open>for i in xrange(n)\<close>, starting from the empty grouper.\<close>

definition link_points :: "point list \<Rightarrow> int \<Rightarrow> int \<Rightarrow> grouper" where
  "link_points points xdist ydist =
     fold (\<lambda>i clusters. scan_back points xdist ydist i i clusters) [0..<length points] []"

text \<open>
  The comprehension
  \<^verbatim>\<open>[sorted(cluster) for cluster in list(clusters) if _score(cluster) >= N]\<close>;
  an exception of \<open>_score\<close> ends it.
\<close>

fun select_clusters :: "grouper \<Rightarrow> int \<Rightarrow> error + point list list" where
  "select_clusters [] N = Inr []"
| "select_clusters (cluster # rest) N =
     (case score cluster of
        Inl e \<Rightarrow> Inl e
      | Inr s \<Rightarrow>
          (case select_clusters rest N of
             Inl e \<Rightarrow> Inl e
           | Inr kept \<Rightarrow> Inr (if int s \<ge> N then sort cluster # kept else kept)))"

text \<open>
  \<open>synteny_scan\<close> sorts the caller's list in place (\<^verbatim>\<open>points.sort()\<close>), so the model
  returns the list as the caller sees it after the call, next to the returned value.
\<close>

definition synteny_scan ::
  "point list \<Rightarrow> int \<Rightarrow> int \<Rightarrow> int \<Rightarrow> point list \<times> (error + point list list)" where
  "synteny_scan points xdist ydist N =
     (let points = sort points
      in (points, select_clusters (link_points points xdist ydist) N))"

subsection \<open>Genome order and blast rows\<close>

text \<open>
  A \<open>BedLine\<close> as far as the functions here read it, and \<open>Bed.order\<close>: the dictionary
  from an accession to its genome-order index and its line. A row of the blast file as
  parsed by \<open>BlastLine\<close> (of jcvi.formats.blast) carries \<open>query\<close> and \<open>subject\<close>;
  \<open>read_blast\<close> sets the other four attributes.
\<close>

record bedline =
  seqid :: string
  accn :: string

type_synonym order = "string \<rightharpoonup> (int \<times> bedline)"

record row =
  query :: string
  subject :: string

record blastline = row +
  qseqid :: string
  sseqid :: string
  qi :: int
  si :: int

subsection \<open>read_blast\<close>

text \<open>
  The loop over the rows of the file, with \<open>seen\<close> and \<open>filtered_blast\<close> as the loop
  state. The key is added to \<open>seen\<close> before the roles are swapped.
\<close>

fun read_blast_rows ::
  "row list \<Rightarrow> order \<Rightarrow> order \<Rightarrow> bool \<Rightarrow> (string \<times> string) set \<Rightarrow> blastline list
    \<Rightarrow> blastline list" where
  "read_blast_rows [] qorder sorder is_self seen filtered_blast = filtered_blast"
| "read_blast_rows (b # fp) qorder sorder is_self seen filtered_blast =
     (case (qorder (query b), sorder (subject b)) of
        (Some (i, q), Some (j, s)) \<Rightarrow>
          if (query b, subject b) \<in> seen
          then read_blast_rows fp qorder sorder is_self seen filtered_blast
          else
            let (i, j, q, s) = (if is_self \<and> i > j then (j, i, s, q) else (i, j, q, s))
            in read_blast_rows fp qorder sorder is_self (insert (query b, subject b) seen)
                 (filtered_blast @
                    [\<lparr>query = query b, subject = subject b,
                      qseqid = seqid q, sseqid = seqid s, qi = i, si = j\<rparr>])
      | _ \<Rightarrow> read_blast_rows fp qorder sorder is_self seen filtered_blast)"

definition read_blast :: "row list \<Rightarrow> order \<Rightarrow> order \<Rightarrow> bool \<Rightarrow> blastline list" where
  "read_blast blast_file qorder sorder is_self =
     read_blast_rows blast_file qorder sorder is_self {} []"

subsection \<open>read_anchors\<close>

text \<open>
  A line of the anchor file is a comment (it starts with \<open>#\<close>) or is split into its
  tokens; \<^verbatim>\<open>a, b = row.split()\<close> raises ValueError unless there are two. The
  \<open>defaultdict(list)\<close> is a function from the key to its list, empty by default.
\<close>

datatype anchor_row = Comment | Tokens "string list"

fun read_anchor_rows ::
  "anchor_row list \<Rightarrow> order \<Rightarrow> order \<Rightarrow> (string \<times> string \<Rightarrow> point list)
    \<Rightarrow> error + (string \<times> string \<Rightarrow> point list)" where
  "read_anchor_rows [] qorder sorder all_anchors = Inr all_anchors"
| "read_anchor_rows (Comment # fp) qorder sorder all_anchors =
     read_anchor_rows fp qorder sorder all_anchors"
| "read_anchor_rows (Tokens [a, b] # fp) qorder sorder all_anchors =
     (case (qorder a, sorder b) of
        (Some (i, q), Some (j, s)) \<Rightarrow>
          read_anchor_rows fp qorder sorder
            (all_anchors((seqid q, seqid s) := all_anchors (seqid q, seqid s) @ [(i, j)]))
      | _ \<Rightarrow> read_anchor_rows fp qorder sorder all_anchors)"
| "read_anchor_rows (Tokens _ # fp) qorder sorder all_anchors = Inl ValueError"

definition read_anchors ::
  "anchor_row list \<Rightarrow> order \<Rightarrow> order \<Rightarrow> error + (string \<times> string \<Rightarrow> point list)" where
  "read_anchors anchor_file qorder sorder =
     read_anchor_rows anchor_file qorder sorder (\<lambda>_. [])"

subsection \<open>synteny_liftover\<close>

text \<open>
  \<open>cKDTree.query\<close> belongs to scipy, an external library. With \<open>k = 1\<close>, \<open>p = 1\<close> and
  \<open>distance_upper_bound = dist\<close> it returns, for a query point, the distance and the
  index of a nearest data point under the L1 metric among the data points whose
  distance is strictly below the bound; when there is none, the distance is infinite
  (\<open>None\<close> here) and the index is \<open>tree.n\<close>, the number of data points. The search
  below keeps a candidate only if it is closer than the current bound, which then
  becomes its distance.
\<close>

definition l1 :: "point \<Rightarrow> point \<Rightarrow> int" where
  "l1 a x = \<bar>fst a - fst x\<bar> + \<bar>snd a - snd x\<bar>"

fun nearest_below :: "point list \<Rightarrow> point \<Rightarrow> int \<Rightarrow> nat \<Rightarrow> (int \<times> nat) option" where
  "nearest_below [] x bound i = None"
| "nearest_below (a # data) x bound i =
     (if l1 a x < bound then
        (case nearest_below data x (l1 a x) (Suc i) of
           None \<Rightarrow> Some (l1 a x, i)
         | Some closer \<Rightarrow> Some closer)
      else nearest_below data x bound (Suc i))"

definition tree_query :: "point list \<Rightarrow> point \<Rightarrow> int \<Rightarrow> int option \<times> nat" where
  "tree_query data x distance_upper_bound =
     (case nearest_below data x distance_upper_bound 0 of
        None \<Rightarrow> (None, length data)
      | Some (d, idx) \<Rightarrow> (Some d, idx))"

text \<open>
  The generator, as the list of what it yields. \<^verbatim>\<open>np.array(points)\<close> of an empty
  list has shape \<open>(0,)\<close>, so \<^verbatim>\<open>points.shape[1]\<close> raises IndexError before anything is
  yielded. The points are pairs, so \<open>ppoints\<close> is \<open>points\<close>. The parameter \<open>dist\<close> is
  written \<open>dist'\<close>.
\<close>

definition synteny_liftover :: "point list \<Rightarrow> point list \<Rightarrow> int \<Rightarrow> error + point list" where
  "synteny_liftover points anchors dist' =
     (if points = [] then Inl IndexError
      else
        let answers = map (\<lambda>x. tree_query anchors x dist') points
        in Inr (map fst
                 (filter (\<lambda>(point, d, idx). idx \<noteq> length anchors) (zip points answers))))"

subsection \<open>get_segments\<close>

text \<open>
  A \<open>Range\<close> as \<open>cluster\<close> builds it: \<^verbatim>\<open>Range("0", minq, maxq, maxq - minq, id)\<close>; the
  fields are the sequence, the start, the end, the score (here \<open>weight\<close>, the spec's
  word) and the id.
\<close>

record range =
  chrom :: string
  start :: int
  stop :: int
  weight :: int
  ident :: int

text \<open>
  Modelled from the spec: \<open>range_chain\<close> of jcvi.utils.range, whose source is not among
  the files verified here. The spec:
  "choose a maximum-total-weight subset of mutually non-overlapping Ranges (classic
  weighted interval scheduling: sort by end coordinate; for each range find the latest
  non-overlapping predecessor; dynamic program taking the better of skip vs take + best
  compatible predecessor; reconstruct the chosen subset). Ties broken by input order."
  \<open>best ! k\<close> is the best score and selection among the first \<open>k\<close> ranges.
\<close>

definition chain_step ::
  "range list \<times> (int \<times> range list) list \<Rightarrow> range \<Rightarrow> range list \<times> (int \<times> range list) list"
  where
  "chain_step acc r =
     (let (seen, best) = acc;
          p = length (takeWhile (\<lambda>x. stop x < start r) seen);
          (take_score, take_selected) = best ! p;
          (skip_score, skip_selected) = last best
      in (seen @ [r],
          best @ [if weight r + take_score > skip_score
                  then (weight r + take_score, take_selected @ [r])
                  else (skip_score, skip_selected)]))"

definition range_chain :: "range list \<Rightarrow> range list \<times> int" where
  "range_chain ranges =
     (let (seen, best) = fold (\<lambda>r acc. chain_step acc r) (sort_key stop ranges) ([], [(0, [])])
      in (snd (last best), fst (last best)))"

text \<open>
  Modelled from the spec: \<open>LEFT\<close> and \<open>RIGHT\<close> of jcvi.utils.range, the same module; they
  tag the spec's "force-left" and "force-right" events, and are 0 and 1 in that module.
  \<open>NUL\<close> is set in \<open>get_segments\<close> itself.
\<close>

definition LEFT :: int where "LEFT = 0"

definition RIGHT :: int where "RIGHT = 1"

definition NUL :: int where "NUL = - 1"

text \<open>
  The loop over the sorted endpoints, as the list of the segments it yields; a segment
  is the pair the generator yields.
\<close>

fun sweep :: "int \<Rightarrow> int \<Rightarrow> (int \<times> int) list \<Rightarrow> (int \<times> int) list" where
  "sweep minsegment current_left [] = []"
| "sweep minsegment current_left ((a, ai) # endpoints) =
     (let current_left = (if ai = LEFT then a else current_left) in
      if ai = RIGHT then (current_left, a) # sweep minsegment current_left endpoints
      else if ai = NUL then
        (if a - current_left < minsegment then sweep minsegment current_left endpoints
         else (current_left, a - 1) # sweep minsegment a endpoints)
      else sweep minsegment current_left endpoints)"

definition get_segments :: "range list \<Rightarrow> (int \<times> int) list \<Rightarrow> int \<Rightarrow> (int \<times> int) list" where
  "get_segments ranges extra minsegment =
     (let (selected, total) = range_chain ranges;
          endpoints = map (\<lambda>x. (start x, NUL)) selected
                    @ map (\<lambda>x. (fst x, LEFT)) extra
                    @ map (\<lambda>x. (snd x, RIGHT)) extra
      in sweep minsegment 0 (sort endpoints))"

subsection \<open>The scorer of cluster\<close>

text \<open>
  The part of \<open>cluster\<close> from the observed counts to the matrix of significance. The
  cells of the numpy arrays are float64 numbers; here they are real numbers, so the
  arithmetic is exact. \<open>poisson.pmf\<close> of scipy is an external function and a parameter
  of the model. \<^verbatim>\<open>int(round(x))\<close> of Python 2 rounds half away from zero.
\<close>

type_synonym matrix = "real list list"

definition zeros :: "nat \<Rightarrow> nat \<Rightarrow> matrix" where
  "zeros m n = replicate m (replicate n 0)"

definition msum :: "matrix \<Rightarrow> real" where
  "msum a = sum_list (map sum_list a)"

definition py_round :: "real \<Rightarrow> int" where
  "py_round x = (if 0 \<le> x then \<lfloor>x + 1 / 2\<rfloor> else - \<lfloor>- x + 1 / 2\<rfloor>)"

text \<open>
  \<^verbatim>\<open>dict((a, i) for i, a in enumerate(padnames))\<close>: of two entries with one key the later
  one stays.
\<close>

definition padid :: "string list \<Rightarrow> string \<rightharpoonup> nat" where
  "padid padnames = map_of (rev (zip padnames [0..<length padnames]))"

text \<open>
  The loop over the blast file: the lookups raise KeyError on a missing key, and the
  indexed update raises IndexError out of range.
\<close>

fun count_hits ::
  "row list \<Rightarrow> order \<Rightarrow> order \<Rightarrow> (string \<rightharpoonup> nat) \<Rightarrow> (string \<rightharpoonup> nat) \<Rightarrow> matrix \<Rightarrow> int
    \<Rightarrow> error + (matrix \<times> int)" where
  "count_hits [] qpadorder spadorder qpadid spadid observed all_dots =
     Inr (observed, all_dots)"
| "count_hits (b # fp) qpadorder spadorder qpadid spadid observed all_dots =
     (case qpadorder (query b) of
        None \<Rightarrow> Inl KeyError
      | Some (i, q) \<Rightarrow>
     (case spadorder (subject b) of
        None \<Rightarrow> Inl KeyError
      | Some (j, s) \<Rightarrow>
     (case qpadid (seqid q) of
        None \<Rightarrow> Inl KeyError
      | Some qsi \<Rightarrow>
     (case spadid (seqid s) of
        None \<Rightarrow> Inl KeyError
      | Some ssi \<Rightarrow>
          if qsi < length observed \<and> ssi < length (observed ! qsi)
          then count_hits fp qpadorder spadorder qpadid spadid
                 (observed[qsi := (observed ! qsi)[ssi := observed ! qsi ! ssi + 1]])
                 (all_dots + 1)
          else Inl IndexError))))"

text \<open>
  The two loops that fill \<open>expected\<close>, row by row. Dividing by \<open>S = 0\<close> raises
  ZeroDivisionError.
\<close>

fun expected_row ::
  "(string \<rightharpoonup> nat) \<Rightarrow> int \<Rightarrow> nat \<Rightarrow> int \<Rightarrow> string list \<Rightarrow> error + real list" where
  "expected_row spadlen all_dots alen S [] = Inr []"
| "expected_row spadlen all_dots alen S (b # spadnames) =
     (case spadlen b of
        None \<Rightarrow> Inl KeyError
      | Some blen \<Rightarrow>
          if S = 0 then Inl ZeroDivisionError
          else
            (case expected_row spadlen all_dots alen S spadnames of
               Inl e \<Rightarrow> Inl e
             | Inr cells \<Rightarrow>
                 Inr (real_of_int (all_dots * int alen * int blen) * 1 / real_of_int S # cells)))"

fun expected_rows ::
  "(string \<rightharpoonup> nat) \<Rightarrow> (string \<rightharpoonup> nat) \<Rightarrow> int \<Rightarrow> int \<Rightarrow> string list \<Rightarrow> string list
    \<Rightarrow> error + matrix" where
  "expected_rows qpadlen spadlen all_dots S [] spadnames = Inr []"
| "expected_rows qpadlen spadlen all_dots S (a # qpadnames) spadnames =
     (case qpadlen a of
        None \<Rightarrow> Inl KeyError
      | Some alen \<Rightarrow>
          (case expected_row spadlen all_dots alen S spadnames of
             Inl e \<Rightarrow> Inl e
           | Inr cells \<Rightarrow>
               (case expected_rows qpadlen spadlen all_dots S qpadnames spadnames of
                  Inl e \<Rightarrow> Inl e
                | Inr rows \<Rightarrow> Inr (cells # rows))))"

text \<open>
  A cell of \<open>logmp\<close>: \<^verbatim>\<open>max(- log(M * poisson.pmf(obs, exp)), 0)\<close>; \<open>math.log\<close> raises
  ValueError unless its argument is positive. The variable \<open>exp\<close> is written \<open>exp'\<close>.
\<close>

definition logmp_cell :: "(real \<Rightarrow> real \<Rightarrow> real) \<Rightarrow> nat \<Rightarrow> real \<Rightarrow> real \<Rightarrow> error + real" where
  "logmp_cell poisson_pmf M obs exp' =
     (if real M * poisson_pmf obs exp' \<le> 0 then Inl ValueError
      else Inr (max (- ln (real M * poisson_pmf obs exp')) 0))"

fun logmp_row :: "(real \<Rightarrow> real \<Rightarrow> real) \<Rightarrow> nat \<Rightarrow> (real \<times> real) list \<Rightarrow> error + real list" where
  "logmp_row poisson_pmf M [] = Inr []"
| "logmp_row poisson_pmf M ((obs, exp') # cells) =
     (case logmp_cell poisson_pmf M obs exp' of
        Inl e \<Rightarrow> Inl e
      | Inr v \<Rightarrow>
          (case logmp_row poisson_pmf M cells of
             Inl e \<Rightarrow> Inl e
           | Inr vs \<Rightarrow> Inr (v # vs)))"

fun logmp_rows :: "(real \<Rightarrow> real \<Rightarrow> real) \<Rightarrow> nat \<Rightarrow> (real list \<times> real list) list \<Rightarrow> error + matrix" where
  "logmp_rows poisson_pmf M [] = Inr []"
| "logmp_rows poisson_pmf M ((obs_row, exp_row) # rows) =
     (case logmp_row poisson_pmf M (zip obs_row exp_row) of
        Inl e \<Rightarrow> Inl e
      | Inr vs \<Rightarrow>
          (case logmp_rows poisson_pmf M rows of
             Inl e \<Rightarrow> Inl e
           | Inr vss \<Rightarrow> Inr (vs # vss)))"

text \<open>
  From the blast rows to \<open>logmp\<close>, with the two assertions in between. \<open>nq\<close> and \<open>ns\<close>
  are \<open>len(qbed)\<close> and \<open>len(sbed)\<close>.
\<close>

definition cluster_scores ::
  "(real \<Rightarrow> real \<Rightarrow> real) \<Rightarrow> row list \<Rightarrow> order \<Rightarrow> order \<Rightarrow> string list \<Rightarrow> string list
    \<Rightarrow> (string \<rightharpoonup> nat) \<Rightarrow> (string \<rightharpoonup> nat) \<Rightarrow> nat \<Rightarrow> nat \<Rightarrow> error + matrix" where
  "cluster_scores poisson_pmf blastfile qpadorder spadorder qpadnames spadnames
      qpadlen spadlen nq ns =
     (let m = length qpadnames; n = length spadnames in
      case count_hits blastfile qpadorder spadorder (padid qpadnames) (padid spadnames)
             (zeros m n) 0 of
        Inl e \<Rightarrow> Inl e
      | Inr (observed, all_dots) \<Rightarrow>
          if py_round (msum observed) \<noteq> all_dots then Inl AssertionError
          else
            (case expected_rows qpadlen spadlen all_dots (int nq * int ns)
                    qpadnames spadnames of
               Inl e \<Rightarrow> Inl e
             | Inr expected \<Rightarrow>
                 if py_round (msum expected) \<noteq> all_dots then Inl AssertionError
                 else logmp_rows poisson_pmf (m * n) (zip observed expected)))"

section \<open>Properties of the disjoint-set structure\<close>

text \<open>No group is empty, and two different groups share no member.\<close>

definition ginv :: "grouper \<Rightarrow> bool" where
  "ginv mapping \<longleftrightarrow>
     [] \<notin> set mapping \<and>
     (\<forall>g \<in> set mapping. \<forall>h \<in> set mapping. g \<noteq> h \<longrightarrow> set g \<inter> set h = {})"

lemma group_of_None: "group_of mapping a = None \<longleftrightarrow> (\<forall>g \<in> set mapping. a \<notin> set g)"
  by (auto simp: group_of_def find_None_iff)

lemma group_of_Some: "group_of mapping a = Some g \<Longrightarrow> g \<in> set mapping \<and> a \<in> set g"
  by (auto simp: group_of_def find_Some_iff)

lemma ginv_empty: "ginv []"
  by (simp add: ginv_def)

lemma ginv_join:
  assumes "ginv mapping"
  shows "ginv (join mapping a b)"
proof -
  define set_a where "set_a = (case group_of mapping a of None \<Rightarrow> [a] | Some g \<Rightarrow> g)"
  define others where "others = filter (\<lambda>g. a \<notin> set g) mapping"
  have a_in: "a \<in> set set_a"
    by (auto simp: set_a_def dest: group_of_Some split: option.splits)
  have set_a_cases: "set_a = [a] \<or> set_a \<in> set mapping"
    by (auto simp: set_a_def dest: group_of_Some split: option.splits)
  have others_sub: "set others \<subseteq> set mapping"
    by (auto simp: others_def)
  have others_a: "\<forall>h \<in> set others. set h \<inter> set set_a = {}"
  proof
    fix h assume h: "h \<in> set others"
    then have h': "a \<notin> set h" "h \<in> set mapping" by (auto simp: others_def)
    from set_a_cases show "set h \<inter> set set_a = {}"
    proof
      assume "set_a = [a]"
      with h' show ?thesis by simp
    next
      assume in_map: "set_a \<in> set mapping"
      from a_in h' have "h \<noteq> set_a" by blast
      with assms in_map h' show ?thesis unfolding ginv_def by blast
    qed
  qed
  have inv_others: "ginv others"
    using assms others_sub by (auto simp: ginv_def)
  have step: "ginv (grp # rest)"
    if "grp \<noteq> []" "ginv rest" "\<forall>h \<in> set rest. set h \<inter> set grp = {}" for grp rest
    using that unfolding ginv_def by (simp add: Int_commute)
  show ?thesis
  proof (cases "b \<in> set set_a")
    case True
    have "set_a \<noteq> []"
      using a_in by auto
    then have "ginv (set_a # others)"
      using inv_others others_a by (simp add: step)
    with True show ?thesis
      by (simp add: join_def set_a_def [symmetric] others_def [symmetric])
  next
    case False
    show ?thesis
    proof (cases "group_of others b")
      case None
      then have "\<forall>h \<in> set others. b \<notin> set h" by (simp add: group_of_None)
      with others_a have "\<forall>h \<in> set others. set h \<inter> set (set_a @ [b]) = {}"
        by (simp add: Int_Un_distrib)
      then have "ginv ((set_a @ [b]) # others)"
        using inv_others by (simp add: step)
      with False None show ?thesis
        by (simp add: join_def set_a_def [symmetric] others_def [symmetric])
    next
      case (Some set_b)
      define rest where "rest = filter (\<lambda>g. b \<notin> set g) others"
      from Some have sb: "set_b \<in> set others" "b \<in> set set_b"
        by (auto dest: group_of_Some)
      have inv_rest: "ginv rest"
        using inv_others by (auto simp: ginv_def rest_def)
      have rest_b: "\<forall>h \<in> set rest. set h \<inter> set set_b = {}"
      proof
        fix h assume "h \<in> set rest"
        then have h': "b \<notin> set h" "h \<in> set others" by (auto simp: rest_def)
        with sb have "h \<noteq> set_b" by blast
        with sb h' inv_others show "set h \<inter> set set_b = {}"
          unfolding ginv_def by blast
      qed
      have rest_a: "\<forall>h \<in> set rest. set h \<inter> set set_a = {}"
        using others_a by (auto simp: rest_def)
      have ne: "set_a \<noteq> []"
        using a_in by auto
      have "\<forall>h \<in> set rest. set h \<inter> set (set_b @ set_a) = {}"
        "\<forall>h \<in> set rest. set h \<inter> set (set_a @ set_b) = {}"
        using rest_a rest_b by (simp_all add: Int_Un_distrib)
      with ne inv_rest
      have "ginv ((set_b @ set_a) # rest)" "ginv ((set_a @ set_b) # rest)"
        by (simp_all add: step)
      with False Some show ?thesis
        by (simp add: join_def set_a_def [symmetric] others_def [symmetric]
            rest_def [symmetric])
    qed
  qed
qed

lemma ginv_scan_back: "ginv clusters \<Longrightarrow> ginv (scan_back points xdist ydist i j clusters)"
  by (induction j arbitrary: clusters) (auto simp: Let_def ginv_join)

lemma ginv_fold_scan:
  "ginv clusters \<Longrightarrow> ginv (fold (\<lambda>i clusters. scan_back points xdist ydist i i clusters) is clusters)"
  by (induction "is" arbitrary: clusters) (auto simp: ginv_scan_back)

lemma ginv_link_points: "ginv (link_points points xdist ydist)"
  by (simp add: link_points_def ginv_fold_scan ginv_empty)

section \<open>Properties of synteny_scan\<close>

lemma score_card:
  "cluster \<noteq> [] \<Longrightarrow>
   score cluster = Inr (min (card (fst ` set cluster)) (card (snd ` set cluster)))"
  by (simp add: score_def length_remdups_card_conv)

lemma select_clusters_filter:
  "[] \<notin> set mapping \<Longrightarrow>
   select_clusters mapping N =
     Inr (map sort
       (filter (\<lambda>g. N \<le> int (min (card (fst ` set g)) (card (snd ` set g)))) mapping))"
  by (induction mapping) (auto simp: score_card)

lemma scan_example:
  "synteny_scan [(50, 50), (1, 1), (3, 3), (2, 2), (51, 51)] 5 5 3 =
     ([(1, 1), (2, 2), (3, 3), (50, 50), (51, 51)], Inr [[(1, 1), (2, 2), (3, 3)]])"
  by code_simp

lemma link_example:
  "link_points (sort [(50, 50), (1, 1), (3, 3), (2, 2), (51, 51)]) 5 5 =
     [[(51, 51), (50, 50)], [(2, 2), (1, 1), (3, 3)]]"
  by code_simp

text \<open>
  C1. Whatever the points, the thresholds and \<open>N\<close>, \<open>synteny_scan\<close> returns a list of
  clusters (the score never raises); every returned cluster has score
  min(|distinct x|, |distinct y|) \<ge> N; the returned clusters are exactly the sorted
  union-find groups of score \<ge> N; and a union-find group of score < N is absent from the
  output: it is not among the clusters, and no returned cluster holds a point of it.
\<close>

theorem synteny_scan_score:
  "\<exists>clusters.
     snd (synteny_scan points xdist ydist N) = Inr clusters \<and>
     (\<forall>c \<in> set clusters. N \<le> int (min (card (fst ` set c)) (card (snd ` set c)))) \<and>
     clusters = map sort (filter
        (\<lambda>g. N \<le> int (min (card (fst ` set g)) (card (snd ` set g))))
        (link_points (sort points) xdist ydist)) \<and>
     (\<forall>g \<in> set (link_points (sort points) xdist ydist).
        int (min (card (fst ` set g)) (card (snd ` set g))) < N \<longrightarrow>
          sort g \<notin> set clusters \<and> (\<forall>c \<in> set clusters. set g \<inter> set c = {}))"
proof -
  define groups where "groups = link_points (sort points) xdist ydist"
  define sc :: "point list \<Rightarrow> int"
    where "sc = (\<lambda>g. int (min (card (fst ` set g)) (card (snd ` set g))))"
  define clusters where "clusters = map sort (filter (\<lambda>g. N \<le> sc g) groups)"
  have inv: "ginv groups"
    by (simp add: groups_def ginv_link_points)
  then have nonempty: "[] \<notin> set groups"
    by (simp add: ginv_def)
  have sc_sort: "sc (sort g) = sc g" for g
    by (simp add: sc_def)
  have result: "snd (synteny_scan points xdist ydist N) = Inr clusters"
    using select_clusters_filter [OF nonempty, of N]
    by (simp add: synteny_scan_def Let_def groups_def clusters_def sc_def)
  have kept: "\<forall>c \<in> set clusters. N \<le> sc c"
    by (auto simp: clusters_def sc_sort)
  have dropped: "sort g \<notin> set clusters \<and> (\<forall>c \<in> set clusters. set g \<inter> set c = {})"
    if g: "g \<in> set groups" and low: "sc g < N" for g
  proof
    show "sort g \<notin> set clusters"
    proof
      assume "sort g \<in> set clusters"
      with kept have "N \<le> sc (sort g)" by blast
      with low show False by (simp add: sc_sort)
    qed
    show "\<forall>c \<in> set clusters. set g \<inter> set c = {}"
    proof
      fix c assume "c \<in> set clusters"
      then obtain h where h: "h \<in> set groups" "N \<le> sc h" "c = sort h"
        by (auto simp: clusters_def)
      with low have "g \<noteq> h" by auto
      with inv g h(1) have "set g \<inter> set h = {}"
        unfolding ginv_def by blast
      with h(3) show "set g \<inter> set c = {}" by simp
    qed
  qed
  from result kept dropped show ?thesis
    unfolding sc_def clusters_def groups_def by blast
qed

theorem synteny_scan_score_witness:
  "snd (synteny_scan [(50, 50), (1, 1), (3, 3), (2, 2), (51, 51)] 5 5 3) =
     Inr [[(1, 1), (2, 2), (3, 3)]] \<and>
   (3::int) \<le> int (min (card (fst ` set ([(1, 1), (2, 2), (3, 3)] :: point list)))
                        (card (snd ` set ([(1, 1), (2, 2), (3, 3)] :: point list)))) \<and>
   set [(51, 51), (50, 50)] \<inter> set ([(1, 1), (2, 2), (3, 3)] :: point list) = {}"
proof -
  let ?pts = "[(50, 50), (1, 1), (3, 3), (2, 2), (51, 51)] :: point list"
  from synteny_scan_score [of ?pts 5 5 3]
  obtain clusters where
    res: "snd (synteny_scan ?pts 5 5 3) = Inr clusters" and
    kept: "\<forall>c \<in> set clusters. 3 \<le> int (min (card (fst ` set c)) (card (snd ` set c)))" and
    dropped: "\<forall>g \<in> set (link_points (sort ?pts) 5 5).
        int (min (card (fst ` set g)) (card (snd ` set g))) < 3 \<longrightarrow>
          sort g \<notin> set clusters \<and> (\<forall>c \<in> set clusters. set g \<inter> set c = {})"
    by blast
  from res have cl: "clusters = [[(1, 1), (2, 2), (3, 3)]]"
    by (simp add: scan_example)
  have low: "int (min (card (fst ` set ([(51, 51), (50, 50)] :: point list)))
                      (card (snd ` set ([(51, 51), (50, 50)] :: point list)))) < 3"
    by simp
  have "[(51, 51), (50, 50)] \<in> set (link_points (sort ?pts) 5 5)"
    unfolding link_example by simp
  with dropped low
  have "\<forall>c \<in> set clusters. set [(51, 51), (50, 50)] \<inter> set c = {}"
    by blast
  with kept show ?thesis
    unfolding cl scan_example by simp
qed

text \<open>
  C9. A permutation of the input (the same multiset of points in another order) gives
  the same result: the list is sorted first and everything else is computed from the
  sorted list, so the returned clusters are the same lists, hence the same sets of
  points per cluster.
\<close>

theorem synteny_scan_permutation:
  assumes "mset points' = mset points"
  shows "synteny_scan points' xdist ydist N = synteny_scan points xdist ydist N"
proof -
  have "sort points' = sort points"
    using assms by (intro properties_for_sort) simp_all
  then show ?thesis
    by (simp add: synteny_scan_def Let_def)
qed

theorem synteny_scan_permutation_witness:
  "mset [(1, 1), (2, 2), (3, 3), (50, 50), (51::int, 51::int)] =
     mset [(50, 50), (1, 1), (3, 3), (2, 2), (51, 51)] \<and>
   synteny_scan [(1, 1), (2, 2), (3, 3), (50, 50), (51, 51)] 5 5 3 =
     ([(1, 1), (2, 2), (3, 3), (50, 50), (51, 51)], Inr [[(1, 1), (2, 2), (3, 3)]])"
proof -
  have perm: "mset [(1, 1), (2, 2), (3, 3), (50, 50), (51::int, 51::int)] =
     mset [(50, 50), (1, 1), (3, 3), (2, 2), (51, 51)]"
    by (simp add: add.commute add.left_commute)
  from synteny_scan_permutation [OF perm, of 5 5 3] perm show ?thesis
    by (simp add: scan_example)
qed

text \<open>
  C10. The call sorts the caller's list in place: the list the caller holds afterwards
  is the sorted input, ascending by \<open>(x, y)\<close> (by \<open>x\<close>, and by \<open>y\<close> among equal \<open>x\<close>),
  with the same points as before, each as often as before.
\<close>

theorem synteny_scan_sorts_input:
  "fst (synteny_scan points xdist ydist N) = sort points \<and>
   sorted_wrt (\<lambda>(x1, y1) (x2, y2). x1 < x2 \<or> (x1 = x2 \<and> y1 \<le> y2))
     (fst (synteny_scan points xdist ydist N)) \<and>
   mset (fst (synteny_scan points xdist ydist N)) = mset points"
proof -
  have "sorted_wrt (\<le>) (sort points)"
    by simp
  then have "sorted_wrt (\<lambda>(x1, y1) (x2, y2). x1 < x2 \<or> (x1 = x2 \<and> y1 \<le> y2)) (sort points)"
    by (rule sorted_wrt_mono_rel [rotated]) (auto simp: less_eq_prod_def)
  then show ?thesis
    by (simp add: synteny_scan_def Let_def)
qed

section \<open>Properties of get_segments\<close>

text \<open>
  A segment the sweep yields either spans at least \<open>minsegment\<close> indices or ends at a
  force-right event.
\<close>

lemma sweep_segments:
  "(l, r) \<in> set (sweep minsegment current_left endpoints) \<Longrightarrow>
   minsegment \<le> r - l + 1 \<or> (r, RIGHT) \<in> set endpoints"
proof (induction endpoints arbitrary: current_left)
  case Nil
  then show ?case by simp
next
  case (Cons e endpoints)
  obtain a ai where e: "e = (a, ai)" by (cases e)
  from Cons.prems Cons.IH show ?case
    unfolding e by (auto simp: Let_def split: if_splits)
qed

lemma right_endpoints:
  "(r, RIGHT) \<in> set (map (\<lambda>x. (start x, NUL)) selected
                    @ map (\<lambda>x. (fst x, LEFT)) extra
                    @ map (\<lambda>x. (snd x, RIGHT)) extra) \<Longrightarrow> r \<in> snd ` set extra"
  by (auto simp: NUL_def LEFT_def RIGHT_def)

lemma get_segments_long_or_forced:
  assumes seg: "(l, r) \<in> set (get_segments ranges extra minsegment)"
  shows "minsegment \<le> r - l + 1 \<or> r \<in> snd ` set extra"
proof -
  obtain selected total where chain: "range_chain ranges = (selected, total)"
    by (cases "range_chain ranges")
  let ?endpoints = "map (\<lambda>x. (start x, NUL)) selected
                    @ map (\<lambda>x. (fst x, LEFT)) extra
                    @ map (\<lambda>x. (snd x, RIGHT)) extra"
  from seg chain have "(l, r) \<in> set (sweep minsegment 0 (sort ?endpoints))"
    by (simp add: get_segments_def)
  then have "minsegment \<le> r - l + 1 \<or> (r, RIGHT) \<in> set (sort ?endpoints)"
    by (rule sweep_segments)
  then have "minsegment \<le> r - l + 1 \<or> (r, RIGHT) \<in> set ?endpoints"
    by simp
  then show ?thesis
    using right_endpoints [of r selected extra] by blast
qed

lemma segments_absorbed_example:
  "get_segments
     [\<lparr>chrom = ''0'', start = 30, stop = 50, weight = 20, ident = 1\<rparr>,
      \<lparr>chrom = ''0'', start = 60, stop = 80, weight = 20, ident = 2\<rparr>]
     [(0, 99)] 40 = [(0, 59), (60, 99)]"
  by code_simp

text \<open>
  C2. One scaffold of genes 0 to 99, a second of genes 100 to 199, and one candidate
  Range that starts at gene 100, the first gene of the second scaffold, with the
  default \<open>minsegment\<close> of 40. The events at position 100 are sorted with the range start
  (\<open>NUL = -1\<close>) before the force-left event (\<open>LEFT = 0\<close>), so the range start is swept
  while the left edge is still 0, the left edge of the first scaffold: the segment
  \<open>(0, 99)\<close>, which the force-right event at 99 has yielded already, is yielded a second
  time. The sequence is not free of overlap and does not cover the 200 indices exactly.
\<close>

theorem get_segments_repeats_segment:
  "get_segments [\<lparr>chrom = ''0'', start = 100, stop = 150, weight = 50, ident = 1\<rparr>]
     [(0, 99), (100, 199)] 40 = [(0, 99), (0, 99), (100, 199)]"
  by code_simp

text \<open>
  Against C6 as stated: with one scaffold of genes 0 to 99 and a selected Range that
  starts at gene 95, the force-right event at 99 yields the segment \<open>(95, 99)\<close> of five
  indices, although \<open>minsegment\<close> is 40.
\<close>

theorem get_segments_short_counterexample:
  "get_segments [\<lparr>chrom = ''0'', start = 95, stop = 99, weight = 4, ident = 1\<rparr>]
     [(0, 99)] 40 = [(0, 94), (95, 99)] \<and> (99::int) - 95 + 1 < 40"
proof
  show "get_segments [\<lparr>chrom = ''0'', start = 95, stop = 99, weight = 4, ident = 1\<rparr>]
     [(0, 99)] 40 = [(0, 94), (95, 99)]"
    by code_simp
  show "(99::int) - 95 + 1 < 40"
    by simp
qed

text \<open>
  C6, amended. The \<open>minsegment\<close> test guards the selected-range-start events only. Every
  segment \<open>(l, r)\<close> that \<open>get_segments\<close> yields spans at least \<open>minsegment\<close> indices
  (\<open>r - l + 1 \<ge> minsegment\<close>) unless it is yielded at a force-right event, where \<open>r\<close> is
  the end of a boundary of \<open>extra\<close>. At a range start \<open>a\<close> closer than \<open>minsegment\<close> to
  the current left edge the sweep yields nothing and leaves the left edge where it is,
  so that span belongs to the next segment yielded; at any other range start it yields
  \<open>(current_left, a - 1)\<close> and moves the left edge to \<open>a\<close>.
\<close>

theorem get_segments_minsegment:
  "(\<forall>(l, r) \<in> set (get_segments ranges extra minsegment).
      minsegment \<le> r - l + 1 \<or> r \<in> snd ` set extra) \<and>
   (a - current_left < minsegment \<longrightarrow>
      sweep minsegment current_left ((a, NUL) # endpoints) =
        sweep minsegment current_left endpoints) \<and>
   (minsegment \<le> a - current_left \<longrightarrow>
      sweep minsegment current_left ((a, NUL) # endpoints) =
        (current_left, a - 1) # sweep minsegment a endpoints)"
proof (intro conjI impI)
  show "\<forall>(l, r) \<in> set (get_segments ranges extra minsegment).
      minsegment \<le> r - l + 1 \<or> r \<in> snd ` set extra"
    using get_segments_long_or_forced by fastforce
next
  assume "a - current_left < minsegment"
  then show "sweep minsegment current_left ((a, NUL) # endpoints) =
        sweep minsegment current_left endpoints"
    by (simp add: NUL_def LEFT_def RIGHT_def)
next
  assume "minsegment \<le> a - current_left"
  then show "sweep minsegment current_left ((a, NUL) # endpoints) =
        (current_left, a - 1) # sweep minsegment a endpoints"
    by (simp add: NUL_def LEFT_def RIGHT_def)
qed

theorem get_segments_minsegment_witness:
  "get_segments
     [\<lparr>chrom = ''0'', start = 30, stop = 50, weight = 20, ident = 1\<rparr>,
      \<lparr>chrom = ''0'', start = 60, stop = 80, weight = 20, ident = 2\<rparr>]
     [(0, 99)] 40 = [(0, 59), (60, 99)] \<and>
   ((40::int) \<le> 59 - 0 + 1 \<or> (59::int) \<in> snd ` set [(0::int, 99::int)]) \<and>
   sweep 40 0 [(30, NUL), (60, NUL), (99, RIGHT)] = sweep 40 0 [(60, NUL), (99, RIGHT)] \<and>
   sweep 40 0 [(60, NUL), (99, RIGHT)] = (0, 59) # sweep 40 60 [(99, RIGHT)]"
proof -
  let ?ranges = "[\<lparr>chrom = ''0'', start = 30, stop = 50, weight = 20, ident = 1\<rparr>,
      \<lparr>chrom = ''0'', start = 60, stop = 80, weight = 20, ident = 2\<rparr>]"
  note thm1 = get_segments_minsegment [of ?ranges "[(0, 99)]" 40 30 0 "[(60, NUL), (99, RIGHT)]"]
  note thm2 = get_segments_minsegment [of ?ranges "[(0, 99)]" 40 60 0 "[(99, RIGHT)]"]
  from thm1 have all: "\<forall>(l, r) \<in> set (get_segments ?ranges [(0, 99)] 40).
      40 \<le> r - l + 1 \<or> r \<in> snd ` set [(0::int, 99::int)]"
    by (rule conjunct1)
  have "(0, 59) \<in> set (get_segments ?ranges [(0, 99)] 40)"
    unfolding segments_absorbed_example by simp
  with all have long: "(40::int) \<le> 59 - 0 + 1 \<or> (59::int) \<in> snd ` set [(0::int, 99::int)]"
    by fastforce
  from thm1 have absorbed:
    "sweep 40 0 [(30, NUL), (60, NUL), (99, RIGHT)] = sweep 40 0 [(60, NUL), (99, RIGHT)]"
    by simp
  from thm2 have cut:
    "sweep 40 0 [(60, NUL), (99, RIGHT)] = (0, 59) # sweep 40 60 [(99, RIGHT)]"
    by simp
  from long absorbed cut show ?thesis
    using segments_absorbed_example by blast
qed

section \<open>Properties of read_blast and read_anchors\<close>

text \<open>In a self comparison every hit kept has \<open>qi \<le> si\<close>.\<close>

lemma read_blast_rows_ordered:
  "\<forall>b \<in> set filtered_blast. qi b \<le> si b \<Longrightarrow>
   \<forall>b \<in> set (read_blast_rows fp qorder sorder True seen filtered_blast). qi b \<le> si b"
proof (induction fp arbitrary: seen filtered_blast)
  case Nil
  then show ?case by simp
next
  case (Cons b fp)
  show ?case
  proof (cases "qorder (query b)")
    case None
    with Cons show ?thesis by simp
  next
    case q: (Some qv)
    show ?thesis
    proof (cases "sorder (subject b)")
      case None
      with Cons q show ?thesis by (simp split: prod.splits)
    next
      case s: (Some sv)
      obtain i ql j sl where v: "qv = (i, ql)" "sv = (j, sl)"
        by (cases qv, cases sv) auto
      show ?thesis
      proof (cases "(query b, subject b) \<in> seen")
        case True
        with Cons q s v show ?thesis by simp
      next
        case False
        have "\<forall>c \<in> set (filtered_blast @
                    [\<lparr>query = query b, subject = subject b,
                      qseqid = seqid (if j < i then sl else ql),
                      sseqid = seqid (if j < i then ql else sl),
                      qi = (if j < i then j else i), si = (if j < i then i else j)\<rparr>]).
                qi c \<le> si c"
          using Cons.prems by auto
        from Cons.IH [OF this] False q s v show ?thesis
          by (auto split: if_splits)
      qed
    qed
  qed
qed

lemma read_blast_self_ordered:
  "b \<in> set (read_blast blast_file qorder sorder True) \<Longrightarrow> qi b \<le> si b"
  using read_blast_rows_ordered [of "[]" blast_file qorder sorder "{}"]
  by (simp add: read_blast_def)

text \<open>
  \<open>read_blast\<close> and \<open>read_anchors\<close> skip a row with an accession that is not in the
  lookup, and go on with the next row.
\<close>

lemma read_blast_skips_missing:
  "qorder (query b) = None \<or> sorder (subject b) = None \<Longrightarrow>
   read_blast_rows (b # fp) qorder sorder is_self seen filtered_blast =
     read_blast_rows fp qorder sorder is_self seen filtered_blast"
  by (auto split: option.splits)

lemma read_anchors_skips_missing:
  "qorder a = None \<or> sorder b = None \<Longrightarrow>
   read_anchor_rows (Tokens [a, b] # fp) qorder sorder all_anchors =
     read_anchor_rows fp qorder sorder all_anchors"
  by (auto split: option.splits)

text \<open>
  C4. A self comparison of two genes \<open>a\<close> (index 0) and \<open>b\<close> (index 1) whose blast file
  has the row \<open>a b\<close> and the row \<open>b a\<close>. The keys \<open>(a, b)\<close> and \<open>(b, a)\<close> differ, and
  the key is tested and recorded before the roles are swapped, so both rows are kept:
  the list returned holds the pair of indices \<open>(0, 1)\<close> twice. Each hit has \<open>qi \<le> si\<close>,
  but the unordered pair of genes appears more than once.
\<close>

theorem read_blast_keeps_both_directions:
  "map (\<lambda>b. (qi b, si b))
     (read_blast [\<lparr>query = ''a'', subject = ''b''\<rparr>, \<lparr>query = ''b'', subject = ''a''\<rparr>]
        (map_of [(''a'', (0, \<lparr>seqid = ''chr1'', accn = ''a''\<rparr>)),
                 (''b'', (1, \<lparr>seqid = ''chr1'', accn = ''b''\<rparr>))])
        (map_of [(''a'', (0, \<lparr>seqid = ''chr1'', accn = ''a''\<rparr>)),
                 (''b'', (1, \<lparr>seqid = ''chr1'', accn = ''b''\<rparr>))])
        True) = [(0, 1), (0, 1)]"
  by (simp add: read_blast_def)

section \<open>Properties of the scorer of cluster\<close>

text \<open>
  C8. The loop of \<open>cluster\<close> that counts the hits indexes the lookup without a test:
  a blast row whose query \<open>x\<close> is not in the lookup raises KeyError and ends the run,
  where \<open>read_blast\<close> and \<open>read_anchors\<close> skip such a row.
\<close>

theorem cluster_raises_on_missing_accession:
  "cluster_scores poisson_pmf [\<lparr>query = ''x'', subject = ''b''\<rparr>]
     (map_of [(''a'', (0, \<lparr>seqid = ''qp'', accn = ''a''\<rparr>)),
              (''b'', (1, \<lparr>seqid = ''qp'', accn = ''b''\<rparr>))])
     (map_of [(''a'', (0, \<lparr>seqid = ''sp'', accn = ''a''\<rparr>)),
              (''b'', (1, \<lparr>seqid = ''sp'', accn = ''b''\<rparr>))])
     [''qp''] [''sp''] [''qp'' \<mapsto> 2] [''sp'' \<mapsto> 2] 2 2 = Inl KeyError"
  by (simp add: cluster_scores_def)





















section \<open>Properties of synteny_liftover\<close>

lemma nearest_below_None:
  "nearest_below data x bound i = None \<longleftrightarrow> (\<forall>a \<in> set data. \<not> l1 a x < bound)"
proof (induction data arbitrary: bound i)
  case Nil
  then show ?case by simp
next
  case (Cons a data)
  then show ?case by (auto split: option.splits)
qed

lemma nearest_below_index:
  "nearest_below data x bound i = Some (d, idx) \<Longrightarrow> i \<le> idx \<and> idx < i + length data"
proof (induction data arbitrary: bound i)
  case Nil
  then show ?case by simp
next
  case (Cons a data)
  then show ?case by (fastforce split: option.splits if_splits)
qed

text \<open>The query misses (its index is \<open>tree.n\<close>) exactly when no data point is closer than the bound.\<close>

lemma tree_query_hit:
  "snd (tree_query data x bound) \<noteq> length data \<longleftrightarrow> (\<exists>a \<in> set data. l1 a x < bound)"
proof (cases "nearest_below data x bound 0")
  case None
  then have "\<forall>a \<in> set data. \<not> l1 a x < bound"
    by (simp add: nearest_below_None)
  with None show ?thesis by (simp add: tree_query_def)
next
  case (Some r)
  obtain d idx where r: "r = (d, idx)" by (cases r)
  from Some r have "idx < length data"
    using nearest_below_index [of data x bound 0 d idx] by simp
  moreover from Some have "\<not> (\<forall>a \<in> set data. \<not> l1 a x < bound)"
    using nearest_below_None [of data x bound 0] by simp
  ultimately show ?thesis
    using Some r by (auto simp: tree_query_def)
qed

lemma filter_answers:
  "map fst (filter (\<lambda>(point, d, idx). idx \<noteq> n) (zip points (map f points))) =
   filter (\<lambda>x. snd (f x) \<noteq> n) points"
  by (induction points) (auto split: prod.splits)

text \<open>
  Against C5 as stated: the anchor \<open>(0, 3)\<close> is at L1 distance 3 of the hit \<open>(0, 0)\<close>,
  which is within \<open>dist = 3\<close>, and the hit is not yielded.
\<close>

theorem liftover_boundary_counterexample:
  "synteny_liftover [(0, 0)] [(0, 3)] 3 = Inr [] \<and> l1 (0, 3) (0, 0) \<le> 3"
  by (simp add: synteny_liftover_def tree_query_def l1_def)

text \<open>
  C5, amended. With a non-empty anchor set, \<open>synteny_liftover\<close> yields exactly the hits
  that have an anchor at L1 distance strictly less than \<open>dist\<close>, in the order of the
  input; an anchor at distance \<open>dist\<close> itself does not count. On an empty list of hits
  it raises IndexError and yields nothing.
\<close>

theorem liftover_strictly_within:
  assumes "anchors \<noteq> []"
  shows "synteny_liftover points anchors dist' =
     (if points = [] then Inl IndexError
      else Inr (filter (\<lambda>x. \<exists>a \<in> set anchors. l1 a x < dist') points))"
proof (cases "points = []")
  case True
  then show ?thesis
    by (simp add: synteny_liftover_def)
next
  case False
  have "map fst (filter (\<lambda>(point, d, idx). idx \<noteq> length anchors)
          (zip points (map (\<lambda>x. tree_query anchors x dist') points))) =
        filter (\<lambda>x. snd (tree_query anchors x dist') \<noteq> length anchors) points"
    by (rule filter_answers)
  also have "\<dots> = filter (\<lambda>x. \<exists>a \<in> set anchors. l1 a x < dist') points"
    by (simp add: tree_query_hit)
  finally show ?thesis
    using False by (simp add: synteny_liftover_def Let_def)
qed

theorem liftover_strictly_within_witness:
  "[(0::int, 3::int)] \<noteq> [] \<and>
   synteny_liftover [(0, 0), (5, 5), (1, 1)] [(0, 3)] 4 = Inr [(0, 0), (1, 1)]"
proof -
  have anchors: "[(0::int, 3::int)] \<noteq> []"
    by simp
  from liftover_strictly_within [OF anchors, of "[(0, 0), (5, 5), (1, 1)]" 4] anchors
  show ?thesis
    by (simp add: l1_def)
qed

end
